theory Spec2Isabelle
  imports Complex_Main
begin

section \<open>The NEON decoder of \<^verbatim>\<open>neon/decoder.py\<close>\<close>

text \<open>
  The decoder has three layers: a scanner built from an ordered list of regular
  expressions (\<^verbatim>\<open>re.Scanner\<close>), a generator (\<^verbatim>\<open>tokenize\<close>) that stamps lines
  and synthesises Indent/Dedent tokens, and a recursive-descent parser in which every
  token class has a \<^verbatim>\<open>parse\<close> method.

  Text is modelled as \<open>string\<close>, read as ASCII. Characters above 127 are treated as
  ordinary characters that are neither digits nor white space.
\<close>

subsection \<open>Python values\<close>

text \<open>
  A Python float is kept as the number its literal denotes (a rational), or as one of
  the two infinities or NaN. The rounding of that number to binary64, and the sign of
  zero, are not part of the model; no statement below depends on them.
\<close>

datatype pyfloat = Finite rat | Infinite bool | NaN

datatype pyval =
    PyNone
  | PyInt int
  | PyFloat pyfloat
  | PyBool bool
  | PyStr string
  | PyList "pyval list"
  | PyDict "(pyval \<times> pyval) list"

text \<open>
  \<^verbatim>\<open>OrderedDict\<close> and \<^verbatim>\<open>dict\<close> both keep insertion order; they are association
  lists here. Lists and dictionaries are unhashable, so using one as a key raises
  \<^verbatim>\<open>TypeError\<close>. Keys are compared with Python's \<^verbatim>\<open>==\<close>, under which
  \<^verbatim>\<open>True == 1 == 1.0\<close>; every NaN is a fresh object that equals no stored key.
\<close>

fun hashable :: "pyval \<Rightarrow> bool" where
  "hashable (PyList _) = False"
| "hashable (PyDict _) = False"
| "hashable _ = True"

fun number_of :: "pyval \<Rightarrow> rat option" where
  "number_of (PyInt n) = Some (of_int n)"
| "number_of (PyBool b) = Some (if b then 1 else 0)"
| "number_of (PyFloat (Finite r)) = Some r"
| "number_of _ = None"

fun py_eq :: "pyval \<Rightarrow> pyval \<Rightarrow> bool" where
  "py_eq PyNone PyNone = True"
| "py_eq (PyStr a) (PyStr b) = (a = b)"
| "py_eq (PyFloat (Infinite a)) (PyFloat (Infinite b)) = (a = b)"
| "py_eq a b = (case (number_of a, number_of b) of (Some x, Some y) \<Rightarrow> x = y | _ \<Rightarrow> False)"

fun setitem :: "pyval \<Rightarrow> pyval \<Rightarrow> (pyval \<times> pyval) list \<Rightarrow> (pyval \<times> pyval) list" where
  "setitem k v [] = [(k, v)]"
| "setitem k v ((k', v') # d) =
     (if py_eq k' k then (k', v) # d else (k', v') # setitem k v d)"

subsection \<open>Tokens and errors\<close>

text \<open>
  One constructor per token class that is ever instantiated, with the type of the
  value the class is built with. \<^verbatim>\<open>NewLine\<close> is built with a count by the scanner
  and without a value by \<^verbatim>\<open>tokenize\<close>.
\<close>

datatype tok =
    String string
  | Integer int
  | Float pyfloat
  | Boolean bool
  | NoneValue
  | Comma
  | Colon
  | EqualSign
  | Hyphen
  | LeftRound
  | RightRound
  | LeftSquare
  | RightSquare
  | LeftBrace
  | RightBrace
  | Indent nat
  | Dedent nat
  | NewLine "nat option"
  | End

record token =
  tok :: tok
  line :: "nat option"

text \<open>\<^verbatim>\<open>Token.id\<close>: the name of the class.\<close>

fun id_of :: "tok \<Rightarrow> string" where
  "id_of (String _) = ''String''"
| "id_of (Integer _) = ''Integer''"
| "id_of (Float _) = ''Float''"
| "id_of (Boolean _) = ''Boolean''"
| "id_of NoneValue = ''NoneValue''"
| "id_of Comma = ''Comma''"
| "id_of Colon = ''Colon''"
| "id_of EqualSign = ''EqualSign''"
| "id_of Hyphen = ''Hyphen''"
| "id_of LeftRound = ''LeftRound''"
| "id_of RightRound = ''RightRound''"
| "id_of LeftSquare = ''LeftSquare''"
| "id_of RightSquare = ''RightSquare''"
| "id_of LeftBrace = ''LeftBrace''"
| "id_of RightBrace = ''RightBrace''"
| "id_of (Indent _) = ''Indent''"
| "id_of (Dedent _) = ''Dedent''"
| "id_of (NewLine _) = ''NewLine''"
| "id_of End = ''End''"

definition token_id :: "token \<Rightarrow> string" where
  "token_id t = id_of (tok t)"

text \<open>The \<^verbatim>\<open>value\<close> attribute of a token.\<close>

fun value_of :: "tok \<Rightarrow> pyval" where
  "value_of (String s) = PyStr s"
| "value_of (Integer n) = PyInt n"
| "value_of (Float f) = PyFloat f"
| "value_of (Boolean b) = PyBool b"
| "value_of (Indent n) = PyInt (int n)"
| "value_of (Dedent n) = PyInt (int n)"
| "value_of (NewLine (Some n)) = PyInt (int n)"
| "value_of _ = PyNone"

text \<open>
  \<^verbatim>\<open>TokenError\<close> carries the text the \<^verbatim>\<open>Unknown\<close> pattern matched.
  \<^verbatim>\<open>SyntaxError\<close> carries the three arguments of its message: the unexpected
  token, the text naming the expected classes, and the token's line.
  \<^verbatim>\<open>StopIteration\<close> is what \<^verbatim>\<open>next\<close> raises on the exhausted generator,
  \<^verbatim>\<open>IndexError\<close> what \<^verbatim>\<open>indent_stack[-1]\<close> raises on an empty list, and
  \<^verbatim>\<open>UnboundLocalError\<close> what reading \<^verbatim>\<open>tok\<close> raises after a loop over no
  token.
\<close>

datatype error =
    TokenError string
  | SyntaxError token string "nat option"
  | StopIteration
  | TypeError
  | IndexError
  | UnboundLocalError

subsection \<open>Characters and strings\<close>

definition is_digit :: "char \<Rightarrow> bool" where
  "is_digit c = (c \<in> set ''0123456789'')"

text \<open>\<^verbatim>\<open>str.isspace\<close> on ASCII: tab to carriage return, the four separators, space.\<close>

definition is_space :: "char \<Rightarrow> bool" where
  "is_space c = (let n = (of_char c :: nat) in (9 \<le> n \<and> n \<le> 13) \<or> (28 \<le> n \<and> n \<le> 32))"

definition lstrip :: "string \<Rightarrow> string" where
  "lstrip s = dropWhile is_space s"

definition strip :: "string \<Rightarrow> string" where
  "strip s = rev (dropWhile is_space (rev (dropWhile is_space s)))"

text \<open>\<^verbatim>\<open>s.strip(c)\<close> for a one-character argument.\<close>

definition strip_char :: "char \<Rightarrow> string \<Rightarrow> string" where
  "strip_char c s = rev (dropWhile (\<lambda>x. x = c) (rev (dropWhile (\<lambda>x. x = c) s)))"

definition digit_value :: "char \<Rightarrow> nat" where
  "digit_value c = of_char c - 48"

text \<open>\<^verbatim>\<open>int(s)\<close> on a run of decimal digits.\<close>

definition int_of_digits :: "string \<Rightarrow> nat" where
  "int_of_digits s = foldl (\<lambda>a c. 10 * a + digit_value c) 0 s"

definition lower :: "char \<Rightarrow> char" where
  "lower c = (let n = (of_char c :: nat) in if 65 \<le> n \<and> n \<le> 90 then char_of (n + 32) else c)"

subsection \<open>The conversions of a literal\<close>

text \<open>\<^verbatim>\<open>str.isdigit\<close>.\<close>

definition isdigit :: "string \<Rightarrow> bool" where
  "isdigit s = (s \<noteq> [] \<and> list_all is_digit s)"

definition Integer_convert :: "string \<Rightarrow> int option" where
  "Integer_convert string = (if isdigit string then Some (int (int_of_digits string)) else None)"

text \<open>
  \<^verbatim>\<open>float(string)\<close>, by the grammar of the language reference. White space around
  the text is dropped. An underscore must stand between two digits. Then comes an
  optional sign, and either \<^verbatim>\<open>inf\<close>, \<^verbatim>\<open>infinity\<close> or \<^verbatim>\<open>nan\<close> in any case, or
  digits with an optional point and an optional exponent, with a digit before or after
  the point. Anything else makes \<^verbatim>\<open>float\<close> raise \<^verbatim>\<open>ValueError\<close>, here \<open>None\<close>.
\<close>

fun underscores :: "char \<Rightarrow> string \<Rightarrow> string option" where
  "underscores prev [] = (if prev = CHR ''_'' then None else Some [])"
| "underscores prev (c # cs) =
     (if c = CHR ''_'' then (if is_digit prev then underscores c cs else None)
      else if prev = CHR ''_'' \<and> \<not> is_digit c then None
      else map_option ((#) c) (underscores c cs))"

definition split_sign :: "string \<Rightarrow> bool \<times> string" where
  "split_sign s =
     (case s of
        [] \<Rightarrow> (False, [])
      | c # cs \<Rightarrow> if c = CHR ''-'' then (True, cs) else if c = CHR ''+'' then (False, cs) else (False, s))"

definition scale :: "int \<Rightarrow> int \<Rightarrow> rat" where
  "scale m e = (if 0 \<le> e then of_int m * 10 ^ nat e else of_int m / 10 ^ nat (- e))"

definition exponent :: "string \<Rightarrow> int option" where
  "exponent s =
     (case s of
        [] \<Rightarrow> Some 0
      | c # cs \<Rightarrow>
          if c = CHR ''e'' \<or> c = CHR ''E'' then
            (let (neg, ds) = split_sign cs in
             if isdigit ds then Some (if neg then - int (int_of_digits ds) else int (int_of_digits ds))
             else None)
          else None)"

definition decimal :: "string \<Rightarrow> rat option" where
  "decimal s =
     (let ip = takeWhile is_digit s;
          r1 = dropWhile is_digit s;
          has_point = (r1 \<noteq> [] \<and> hd r1 = CHR ''.'');
          fp = (if has_point then takeWhile is_digit (tl r1) else []);
          r2 = (if has_point then dropWhile is_digit (tl r1) else r1)
      in if ip = [] \<and> fp = [] then None
         else (case exponent r2 of
                 None \<Rightarrow> None
               | Some e \<Rightarrow> Some (scale (int (int_of_digits (ip @ fp))) (e - int (length fp)))))"

definition float :: "string \<Rightarrow> pyfloat option" where
  "float string =
     (case underscores (CHR 0x00) (strip string) of
        None \<Rightarrow> None
      | Some s \<Rightarrow>
          (let (neg, body) = split_sign s; word = map lower body in
           if word = ''inf'' \<or> word = ''infinity'' then Some (Infinite neg)
           else if word = ''nan'' then Some NaN
           else (case decimal body of
                   None \<Rightarrow> None
                 | Some r \<Rightarrow> Some (Finite (if neg then - r else r)))))"

definition Float_convert :: "string \<Rightarrow> pyfloat option" where
  "Float_convert string = float string"

definition Boolean_mapping :: "(bool \<times> string list) list" where
  "Boolean_mapping =
     [(True, [''true'', ''True'', ''TRUE'', ''yes'', ''Yes'', ''YES'']),
      (False, [''false'', ''False'', ''FALSE'', ''no'', ''No'', ''NO''])]"

fun Boolean_lookup :: "(bool \<times> string list) list \<Rightarrow> string \<Rightarrow> bool option" where
  "Boolean_lookup [] string = None"
| "Boolean_lookup ((v, alternatives) # items) string =
     (if string \<in> set alternatives then Some v else Boolean_lookup items string)"

definition Boolean_convert :: "string \<Rightarrow> bool option" where
  "Boolean_convert string = Boolean_lookup Boolean_mapping string"

text \<open>
  \<^verbatim>\<open>Literal.do\<close>: the loop over \<^verbatim>\<open>[Integer, Float, Boolean]\<close> returns the first
  conversion that is not \<^verbatim>\<open>None\<close>, wrapped in its class.
\<close>

fun first_converted :: "(string \<Rightarrow> tok option) list \<Rightarrow> string \<Rightarrow> tok option" where
  "first_converted [] string = None"
| "first_converted (Type # Types) string =
     (case Type string of Some t \<Rightarrow> Some t | None \<Rightarrow> first_converted Types string)"

definition Literal_do :: "string \<Rightarrow> tok" where
  "Literal_do string =
     (case first_converted
             [map_option Integer \<circ> Integer_convert,
              map_option Float \<circ> Float_convert,
              map_option Boolean \<circ> Boolean_convert] string of
        Some t \<Rightarrow> t
      | None \<Rightarrow> if string \<in> set [''null'', ''Null'', ''NULL''] then NoneValue else String string)"

definition String_do :: "string \<Rightarrow> error + tok" where
  "String_do string =
     (case string of
        [] \<Rightarrow> Inl IndexError
      | c # _ \<Rightarrow>
          if c = CHR 0x22 then Inr (String (strip_char (CHR 0x22) string))
          else Inr (String (strip_char (CHR 0x27) string)))"

subsection \<open>The patterns of the scanner\<close>

text \<open>
  Each pattern is a function from the rest of the input to the length of its match there,
  if it matches. The flag says whether the position is at the start of a line, which is
  where \<^verbatim>\<open>^\<close> matches under \<^verbatim>\<open>re.MULTILINE\<close>.
\<close>

definition newline :: char where
  "newline = CHR 0x0A"

definition double_quote :: char where
  "double_quote = CHR 0x22"

definition single_quote :: char where
  "single_quote = CHR 0x27"

definition is_blank :: "char \<Rightarrow> bool" where
  "is_blank c = (c = CHR '' '' \<or> c = CHR 0x09)"

text \<open>The range \<^verbatim>\<open>\x00-\x20\<close>.\<close>

definition is_control :: "char \<Rightarrow> bool" where
  "is_control c = ((of_char c :: nat) \<le> 32)"

text \<open>\<^verbatim>\<open>"[^"\n]*"\<close> for the quote \<open>q\<close>.\<close>

definition quoted :: "char \<Rightarrow> string \<Rightarrow> nat option" where
  "quoted q s =
     (case s of
        [] \<Rightarrow> None
      | c # cs \<Rightarrow>
          if c = q then
            (case dropWhile (\<lambda>x. x \<noteq> q \<and> x \<noteq> newline) cs of
               [] \<Rightarrow> None
             | d # _ \<Rightarrow>
                 if d = q then Some (length (takeWhile (\<lambda>x. x \<noteq> q \<and> x \<noteq> newline) cs) + 2)
                 else None)
          else None)"

definition String_re :: "bool \<Rightarrow> string \<Rightarrow> nat option" where
  "String_re bol s =
     (case quoted double_quote s of Some n \<Rightarrow> Some n | None \<Rightarrow> quoted single_quote s)"

text \<open>
  The pattern of \<^verbatim>\<open>Literal\<close>. Its head is one character outside
  \<^verbatim>\<open>#"',:=[]{}()\x00-\x20!`-\<close>, or a colon or hyphen followed by a character that
  is neither white space nor one of \<^verbatim>\<open>"',])}\<close>. Its tail repeats, greedily: a
  character outside \<^verbatim>\<open>,:=])}(\x00-\x20\<close>; a colon not followed by white space, one
  of \<^verbatim>\<open>,])}\<close> or the end of the line; blanks followed by a character outside
  \<^verbatim>\<open>#,:=])}(\x00-\x20\<close>. Nothing follows the tail in the pattern, so the greedy
  match is the match.
\<close>

definition Literal_first :: "char \<Rightarrow> bool" where
  "Literal_first c =
     (c \<notin> set ''#,:=[]{}()!-'' \<and> c \<noteq> double_quote \<and> c \<noteq> single_quote \<and> c \<noteq> CHR 0x60
      \<and> \<not> is_control c)"

definition Literal_second :: "char \<Rightarrow> bool" where
  "Literal_second c =
     (c \<notin> set '',])}'' \<and> c \<noteq> double_quote \<and> c \<noteq> single_quote \<and> \<not> is_space c)"

definition Literal_head :: "string \<Rightarrow> nat option" where
  "Literal_head s =
     (case s of
        [] \<Rightarrow> None
      | c # cs \<Rightarrow>
          if Literal_first c then Some 1
          else if c = CHR '':'' \<or> c = CHR ''-'' then
            (case cs of [] \<Rightarrow> None | d # _ \<Rightarrow> if Literal_second d then Some 2 else None)
          else None)"

definition Literal_inner :: "char \<Rightarrow> bool" where
  "Literal_inner c = (c \<notin> set '',:=])}('' \<and> \<not> is_control c)"

definition Literal_after_blanks :: "char \<Rightarrow> bool" where
  "Literal_after_blanks c = (c \<notin> set ''#,:=])}('' \<and> \<not> is_control c)"

text \<open>The lookahead \<^verbatim>\<open>[\s,\]})] | $\<close> at the text after a colon.\<close>

definition colon_ends :: "string \<Rightarrow> bool" where
  "colon_ends s = (case s of [] \<Rightarrow> True | c # _ \<Rightarrow> is_space c \<or> c \<in> set '',])}'')"

function Literal_tail :: "string \<Rightarrow> nat" where
  "Literal_tail s =
     (case s of
        [] \<Rightarrow> 0
      | c # cs \<Rightarrow>
          if Literal_inner c then Suc (Literal_tail cs)
          else if c = CHR '':'' \<and> \<not> colon_ends cs then Suc (Literal_tail cs)
          else if is_blank c then
            (case dropWhile is_blank cs of
               [] \<Rightarrow> 0
             | y # r \<Rightarrow>
                 if Literal_after_blanks y
                 then Suc (length (takeWhile is_blank cs)) + 1 + Literal_tail r
                 else 0)
          else 0)"
  by pat_completeness auto
termination
proof (relation "measure length")
  fix s :: string and c cs y r
  assume "s = c # cs" and "dropWhile is_blank cs = y # r"
  then have "length (y # r) \<le> length cs"
    by (metis length_dropWhile_le)
  with \<open>s = c # cs\<close> show "(r, s) \<in> measure length"
    by simp
qed auto

declare Literal_tail.simps [simp del]

definition Literal_re :: "bool \<Rightarrow> string \<Rightarrow> nat option" where
  "Literal_re bol s =
     (case Literal_head s of None \<Rightarrow> None | Some n \<Rightarrow> Some (n + Literal_tail (drop n s)))"

text \<open>A pattern that is one character.\<close>

definition symbol :: "char \<Rightarrow> bool \<Rightarrow> string \<Rightarrow> nat option" where
  "symbol c bol s = (case s of [] \<Rightarrow> None | d # _ \<Rightarrow> if d = c then Some 1 else None)"

text \<open>\<^verbatim>\<open>\#.*\<close>; the dot does not match a line break.\<close>

definition Comment_re :: "bool \<Rightarrow> string \<Rightarrow> nat option" where
  "Comment_re bol s =
     (case s of
        [] \<Rightarrow> None
      | c # cs \<Rightarrow> if c = CHR ''#'' then Some (Suc (length (takeWhile (\<lambda>x. x \<noteq> newline) cs))) else None)"

text \<open>One or more characters of a class.\<close>

definition run :: "(char \<Rightarrow> bool) \<Rightarrow> string \<Rightarrow> nat option" where
  "run P s = (if takeWhile P s = [] then None else Some (length (takeWhile P s)))"

definition Indent_re :: "bool \<Rightarrow> string \<Rightarrow> nat option" where
  "Indent_re bol s = (if bol then run is_blank s else None)"

definition NewLine_re :: "bool \<Rightarrow> string \<Rightarrow> nat option" where
  "NewLine_re bol s = run (\<lambda>c. c = newline) s"

definition WhiteSpace_re :: "bool \<Rightarrow> string \<Rightarrow> nat option" where
  "WhiteSpace_re bol s = run is_blank s"

text \<open>\<^verbatim>\<open>.*\<close> matches the rest of the line, which may be empty.\<close>

definition Unknown_re :: "bool \<Rightarrow> string \<Rightarrow> nat option" where
  "Unknown_re bol s = Some (length (takeWhile (\<lambda>x. x \<noteq> newline) s))"

subsection \<open>The scanner\<close>

text \<open>
  The action of a pattern is its class's \<^verbatim>\<open>do\<close>: a function of the matched text
  that returns a token or raises, or \<^verbatim>\<open>None\<close> for the patterns whose matches are
  dropped.
\<close>

type_synonym action = "(string \<Rightarrow> error + tok) option"

definition Symbol_do :: "tok \<Rightarrow> string \<Rightarrow> error + tok" where
  "Symbol_do cls string = Inr cls"

definition Indent_do :: "string \<Rightarrow> error + tok" where
  "Indent_do string = Inr (Indent (length string))"

definition NewLine_do :: "string \<Rightarrow> error + tok" where
  "NewLine_do string = Inr (NewLine (Some (length string)))"

definition Unknown_do :: "string \<Rightarrow> error + tok" where
  "Unknown_do token = Inl (TokenError token)"

text \<open>The lexicon, in the order in which the classes are registered in \<^verbatim>\<open>TOKENS\<close>.\<close>

definition lexicon :: "((bool \<Rightarrow> string \<Rightarrow> nat option) \<times> action) list" where
  "lexicon =
     [(String_re, Some String_do),
      (Literal_re, Some (Inr \<circ> Literal_do)),
      (symbol (CHR '',''), Some (Symbol_do Comma)),
      (symbol (CHR '':''), Some (Symbol_do Colon)),
      (symbol (CHR ''=''), Some (Symbol_do EqualSign)),
      (symbol (CHR ''-''), Some (Symbol_do Hyphen)),
      (symbol (CHR ''(''), Some (Symbol_do LeftRound)),
      (symbol (CHR '')''), Some (Symbol_do RightRound)),
      (symbol (CHR ''[''), Some (Symbol_do LeftSquare)),
      (symbol (CHR '']''), Some (Symbol_do RightSquare)),
      (symbol (CHR ''{''), Some (Symbol_do LeftBrace)),
      (symbol (CHR ''}''), Some (Symbol_do RightBrace)),
      (Comment_re, None),
      (Indent_re, Some Indent_do),
      (NewLine_re, Some NewLine_do),
      (WhiteSpace_re, None),
      (Unknown_re, Some Unknown_do)]"

text \<open>The alternation of the patterns: the first one that matches decides.\<close>

fun first_match :: "((bool \<Rightarrow> string \<Rightarrow> nat option) \<times> action) list \<Rightarrow> bool \<Rightarrow> string
    \<Rightarrow> (nat \<times> action) option" where
  "first_match [] bol s = None"
| "first_match ((re, action) # phrases) bol s =
     (case re bol s of Some n \<Rightarrow> Some (n, action) | None \<Rightarrow> first_match phrases bol s)"

lemma first_match_Nil: "first_match lexicon bol [] = Some (0, Some Unknown_do)"
  by (simp add: lexicon_def String_re_def quoted_def Literal_re_def Literal_head_def symbol_def
      Comment_re_def Indent_re_def NewLine_re_def WhiteSpace_re_def Unknown_re_def run_def)

text \<open>
  \<^verbatim>\<open>Scanner.scan\<close>: match at the current position; stop when nothing matches or the
  match is empty; call the action when there is one and keep what it returns; go on
  after the match. An action that raises ends the scan with its exception. The text
  left over, which \<^verbatim>\<open>tokenize\<close> ignores, is not returned. Every token is built
  without a line.
\<close>

function scan :: "bool \<Rightarrow> string \<Rightarrow> error + token list" where
  "scan bol s =
     (case first_match lexicon bol s of
        None \<Rightarrow> Inr []
      | Some (n, action) \<Rightarrow>
          if n = 0 then Inr []
          else
            (case action of
               None \<Rightarrow> scan (last (take n s) = newline) (drop n s)
             | Some do \<Rightarrow>
                 (case do (take n s) of
                    Inl e \<Rightarrow> Inl e
                  | Inr t \<Rightarrow>
                      (case scan (last (take n s) = newline) (drop n s) of
                         Inl e \<Rightarrow> Inl e
                       | Inr result \<Rightarrow> Inr (\<lparr>tok = t, line = None\<rparr> # result)))))"
  by pat_completeness auto
termination
proof (relation "measure (\<lambda>(bol, s). length s)")
  show "wf (measure (\<lambda>(bol, s). length s))"
    by simp
next
  fix bol s x2 n action
  assume "first_match lexicon bol s = Some x2" "(n, action) = x2" "n \<noteq> 0"
  then have "s \<noteq> []"
    using first_match_Nil [of bol] by auto
  with \<open>n \<noteq> 0\<close> show "((last (take n s) = newline, drop n s), bol, s) \<in> measure (\<lambda>(bol, s). length s)"
    by simp
next
  fix bol s x2 n action do t
  assume "first_match lexicon bol s = Some x2" "(n, action) = x2" "n \<noteq> 0"
  then have "s \<noteq> []"
    using first_match_Nil [of bol] by auto
  with \<open>n \<noteq> 0\<close> show "((last (take n s) = newline, drop n s), bol, s) \<in> measure (\<lambda>(bol, s). length s)"
    by simp
qed

declare scan.simps [simp del]

subsection \<open>The generator of tokens\<close>

text \<open>
  Modelled from the spec: \<^verbatim>\<open>utils.lstripped\<close> is not among the sources. The spec
  describes the position counter as starting from the count of characters stripped from
  the very start of the input, so \<^verbatim>\<open>lstripped\<close> returns the leading white space of
  its argument.
\<close>

definition lstripped :: "string \<Rightarrow> string" where
  "lstripped s = takeWhile is_space s"

record state =
  position :: nat
  curr_indent :: nat
  indent_stack :: "nat list"
  newline_last :: bool

text \<open>
  The loop \<^verbatim>\<open>while indent_stack[-1] > curr_indent\<close>: each round pops the stack and
  yields a Dedent with the popped width and a NewLine without a value. The top of the
  stack is the last element of the list.
\<close>

function dedents :: "nat list \<Rightarrow> nat \<Rightarrow> nat \<Rightarrow> error + token list \<times> nat list" where
  "dedents stack cur pos =
     (if stack = [] then Inl IndexError
      else if last stack > cur then
        (case dedents (butlast stack) cur pos of
           Inl e \<Rightarrow> Inl e
         | Inr (out, stack') \<Rightarrow>
             Inr (\<lparr>tok = Dedent (last stack), line = Some pos\<rparr>
                  # \<lparr>tok = NewLine None, line = Some pos\<rparr> # out, stack'))
      else Inr ([], stack))"
  by pat_completeness auto
termination
  by (relation "measure (\<lambda>(stack, cur, pos). length stack)") auto

declare dedents.simps [simp del]

text \<open>
  One round of the loop over the scanned tokens: the tokens it yields and the state it
  leaves. Adding the value of a NewLine that has none raises \<^verbatim>\<open>TypeError\<close>; the
  scanner builds no such token.
\<close>

definition tokenize_step :: "state \<Rightarrow> token \<Rightarrow> error + token list \<times> state" where
  "tokenize_step st t =
     (let indent = (case tok t of Indent n \<Rightarrow> n | _ \<Rightarrow> 0);
          changed = (newline_last st \<and> indent \<noteq> curr_indent st);
          indent_change = (if changed then int indent - int (curr_indent st) else 0);
          cur = (if changed then indent else curr_indent st)
      in case (case tok t of
                 NewLine None \<Rightarrow> Inl TypeError
               | NewLine (Some n) \<Rightarrow> Inr (t, position st + n, True)
               | _ \<Rightarrow> Inr (t\<lparr>line := Some (position st)\<rparr>, position st, False)) of
           Inl e \<Rightarrow> Inl e
         | Inr (t', pos, nl) \<Rightarrow>
             (case (if indent_change < 0 then dedents (indent_stack st) cur pos
                    else Inr ([], indent_stack st)) of
                Inl e \<Rightarrow> Inl e
              | Inr (out, stack) \<Rightarrow>
                  Inr (out @ (if indent_change > 0 then [t'] else [])
                           @ (if token_id t' \<noteq> ''Indent'' then [t'] else []),
                       \<lparr>position = pos, curr_indent = cur,
                        indent_stack = (if indent_change > 0 then stack @ [cur] else stack),
                        newline_last = nl\<rparr>)))"

fun tokenize_loop :: "state \<Rightarrow> token list \<Rightarrow> error + token list \<times> state" where
  "tokenize_loop st [] = Inr ([], st)"
| "tokenize_loop st (t # tokens) =
     (case tokenize_step st t of
        Inl e \<Rightarrow> Inl e
      | Inr (out, st') \<Rightarrow>
          (case tokenize_loop st' tokens of
             Inl e \<Rightarrow> Inl e
           | Inr (outs, st'') \<Rightarrow> Inr (out @ outs, st'')))"

definition initial :: "string \<Rightarrow> state" where
  "initial input_string =
     \<lparr>position = length (lstripped input_string) + 1, curr_indent = 0, indent_stack = [0],
      newline_last = False\<rparr>"

text \<open>
  \<^verbatim>\<open>tokenize\<close> is a generator. Its body scans the whole stripped input when the first
  token is asked for, so an error of the scanner comes before any token; after that the
  loop raises nothing on scanned tokens (\<open>tokenize_raises_only_TokenError\<close> below), so the list
  of everything it yields stands for the generator.
\<close>

definition tokenize :: "string \<Rightarrow> error + token list" where
  "tokenize input_string =
     (case scan True (strip input_string) of
        Inl e \<Rightarrow> Inl e
      | Inr tokens \<Rightarrow>
          (case tokenize_loop (initial input_string) tokens of
             Inl e \<Rightarrow> Inl e
           | Inr (out, st) \<Rightarrow> Inr (out @ [\<lparr>tok = End, line = None\<rparr>])))"

subsection \<open>The parser\<close>

text \<open>
  The generator is consumed one token at a time and never rewound, so the parser's
  functions take the tokens still to come and return them with their result.
  \<^verbatim>\<open>itertools.chain([tok], tokens)\<close> puts one token back in front.

  The second argument of \<^verbatim>\<open>advance\<close> is \<^verbatim>\<open>None\<close>, a class, or a tuple of
  classes; a class is given by its \<^verbatim>\<open>id\<close>.
\<close>

datatype allowed = Anything | One string | Several "string list"

definition join :: "string \<Rightarrow> string list \<Rightarrow> string" where
  "join sep items = (case items of [] \<Rightarrow> [] | x # xs \<Rightarrow> foldl (\<lambda>a b. a @ sep @ b) x xs)"

fun all_next :: "('a \<Rightarrow> bool) \<Rightarrow> 'a list \<Rightarrow> bool \<times> 'a list" where
  "all_next P [] = (True, [])"
| "all_next P (x # xs) = (if P x then all_next P xs else (False, xs))"

definition advance :: "token list \<Rightarrow> allowed \<Rightarrow> error + token \<times> token list" where
  "advance tokens allowed =
     (case tokens of
        [] \<Rightarrow> Inl StopIteration
      | t # rest \<Rightarrow>
          (case allowed of
             Anything \<Rightarrow> Inr (t, rest)
           | One T \<Rightarrow>
               (let allowed_tokens = [T] in
                if list_all (\<lambda>T. token_id t \<noteq> T) allowed_tokens
                then Inl (SyntaxError t (join '' or '' allowed_tokens) (line t))
                else Inr (t, rest))
           | Several Ts \<Rightarrow>
               (let (unexpected, allowed_tokens) = all_next (\<lambda>T. token_id t \<noteq> T) Ts in
                if unexpected
                then Inl (SyntaxError t (join '' or '' allowed_tokens) (line t))
                else Inr (t, rest))))"

definition store :: "pyval \<Rightarrow> pyval \<Rightarrow> (pyval \<times> pyval) list \<Rightarrow> error + (pyval \<times> pyval) list" where
  "store key v data = (if hashable key then Inr (setitem key v data) else Inl TypeError)"

definition andthen :: "error + 'a \<Rightarrow> ('a \<Rightarrow> error + 'b) \<Rightarrow> error + 'b" where
  "andthen m f = (case m of Inl e \<Rightarrow> Inl e | Inr x \<Rightarrow> f x)"

lemma andthen_cong [fundef_cong]:
  "m = m' \<Longrightarrow> (\<And>x. m' = Inr x \<Longrightarrow> f x = f' x) \<Longrightarrow> andthen m f = andthen m' f'"
  by (auto simp: andthen_def split: sum.splits)

lemma andthen_simps [simp]:
  "andthen (Inl e) f = Inl e"
  "andthen (Inr x) f = f x"
  by (simp_all add: andthen_def)

lemma andthen_eq_Inr: "andthen m f = Inr y \<longleftrightarrow> (\<exists>x. m = Inr x \<and> f x = Inr y)"
  by (auto simp: andthen_def split: sum.splits)

function (sequential) Token_parse :: "token \<Rightarrow> token list \<Rightarrow> error + pyval \<times> token list"
  and LeftRound_while :: "(pyval \<times> pyval) list \<Rightarrow> token \<Rightarrow> token list \<Rightarrow> error + pyval \<times> token list"
  and LeftSquare_while :: "pyval list \<Rightarrow> token \<Rightarrow> token list \<Rightarrow> error + pyval \<times> token list"
  and LeftBrace_while :: "(pyval \<times> pyval) list \<Rightarrow> token \<Rightarrow> token list \<Rightarrow> error + pyval \<times> token list"
  and parse_list_while :: "pyval list \<Rightarrow> token \<Rightarrow> token list \<Rightarrow> error + pyval \<times> token list"
  and parse_dict_while :: "(pyval \<times> pyval) list \<Rightarrow> token \<Rightarrow> token list \<Rightarrow> error + pyval \<times> token list"
where
  "Token_parse self tokens =
     (case tok self of
        LeftRound \<Rightarrow>
          andthen (advance tokens Anything) (\<lambda>(t, tokens). LeftRound_while [] t tokens)
      | LeftSquare \<Rightarrow>
          andthen (advance tokens Anything) (\<lambda>(t, tokens). LeftSquare_while [] t tokens)
      | LeftBrace \<Rightarrow>
          andthen (advance tokens Anything) (\<lambda>(t, tokens). LeftBrace_while [] t tokens)
      | Indent n \<Rightarrow>
          andthen (advance tokens Anything) (\<lambda>(t, rest).
          andthen (advance (t # rest) Anything) (\<lambda>(t', tokens).
            if token_id t = ''Hyphen'' then parse_list_while [] t' tokens
            else parse_dict_while [] t' tokens))
      | _ \<Rightarrow> Inr (value_of (tok self), tokens))"
| "LeftRound_while data t tokens =
     (if token_id t = ''RightRound'' then Inr (PyDict data, tokens)
      else
        andthen (Token_parse t tokens) (\<lambda>(key, tokens).
        andthen (advance tokens (One ''EqualSign'')) (\<lambda>(_, tokens).
        andthen (advance tokens Anything) (\<lambda>(t, tokens).
        andthen (Token_parse t tokens) (\<lambda>(v, tokens).
        andthen (store key v data) (\<lambda>data.
        andthen (advance tokens (Several [''Comma'', ''RightRound''])) (\<lambda>(t, tokens).
          if token_id t = ''Comma''
          then andthen (advance tokens Anything) (\<lambda>(t, tokens). LeftRound_while data t tokens)
          else LeftRound_while data t tokens)))))))"
| "LeftSquare_while data t tokens =
     (if token_id t = ''RightSquare'' then Inr (PyList data, tokens)
      else
        andthen (Token_parse t tokens) (\<lambda>(v, tokens).
        andthen (advance tokens (Several [''Comma'', ''RightSquare''])) (\<lambda>(t, tokens).
          if token_id t = ''Comma''
          then andthen (advance tokens Anything) (\<lambda>(t, tokens). LeftSquare_while (data @ [v]) t tokens)
          else LeftSquare_while (data @ [v]) t tokens)))"
| "LeftBrace_while data t tokens =
     (if token_id t = ''RightBrace'' then Inr (PyDict data, tokens)
      else
        andthen (Token_parse t tokens) (\<lambda>(key, tokens).
        andthen (advance tokens (One ''Colon'')) (\<lambda>(_, tokens).
        andthen (advance tokens Anything) (\<lambda>(t, tokens).
        andthen (Token_parse t tokens) (\<lambda>(v, tokens).
        andthen (store key v data) (\<lambda>data.
        andthen (advance tokens (Several [''Comma'', ''RightBrace''])) (\<lambda>(t, tokens).
          if token_id t = ''Comma''
          then andthen (advance tokens Anything) (\<lambda>(t, tokens). LeftBrace_while data t tokens)
          else LeftBrace_while data t tokens)))))))"
| "parse_list_while data t tokens =
     (if token_id t = ''Dedent'' then Inr (PyList data, tokens)
      else
        andthen (advance tokens Anything) (\<lambda>(t, tokens).
        andthen (Token_parse t tokens) (\<lambda>(v, tokens).
        andthen (advance tokens (One ''NewLine'')) (\<lambda>(_, tokens).
        andthen (advance tokens (Several [''Hyphen'', ''Dedent''])) (\<lambda>(t, tokens).
          parse_list_while (data @ [v]) t tokens)))))"
| "parse_dict_while data t tokens =
     (if token_id t = ''Dedent'' then Inr (PyDict data, tokens)
      else
        andthen (Token_parse t tokens) (\<lambda>(key, tokens).
        andthen (advance tokens (One ''Colon'')) (\<lambda>(_, tokens).
        andthen (advance tokens Anything) (\<lambda>(t, tokens).
        andthen (if token_id t = ''NewLine'' then advance tokens Anything else Inr (t, tokens))
          (\<lambda>(t, tokens).
        andthen (Token_parse t tokens) (\<lambda>(v, tokens).
        andthen (store key v data) (\<lambda>data.
        andthen (advance tokens (One ''NewLine'')) (\<lambda>(_, tokens).
        andthen (advance tokens Anything) (\<lambda>(t, tokens).
          parse_dict_while data t tokens)))))))))"
  by pat_completeness auto

lemmas parser_pinduct =
  Token_parse_LeftRound_while_LeftSquare_while_LeftBrace_while_parse_list_while_parse_dict_while.pinduct

fun accepts :: "allowed \<Rightarrow> token \<Rightarrow> bool" where
  "accepts Anything t = True"
| "accepts (One T) t = (token_id t = T)"
| "accepts (Several Ts) t = (token_id t \<in> set Ts)"

lemma all_next_fst: "fst (all_next P xs) = list_all P xs"
  by (induction xs) auto

lemma advance_eq_Inr:
  "advance tokens a = Inr (t, rest) \<longleftrightarrow> tokens = t # rest \<and> accepts a t"
proof (cases tokens)
  case Nil
  then show ?thesis by (simp add: advance_def)
next
  case (Cons u us)
  show ?thesis
  proof (cases a)
    case (Several Ts)
    obtain b ys where e: "all_next (\<lambda>T. token_id u \<noteq> T) Ts = (b, ys)"
      by (cases "all_next (\<lambda>T. token_id u \<noteq> T) Ts")
    with all_next_fst [of "\<lambda>T. token_id u \<noteq> T" Ts]
    have "b = list_all (\<lambda>T. token_id u \<noteq> T) Ts" by simp
    with e Cons Several show ?thesis
      by (auto simp: advance_def list_all_iff)
  qed (auto simp: advance_def Cons)
qed

lemma Token_parse_shorter_dom:
  assumes "Token_parse_LeftRound_while_LeftSquare_while_LeftBrace_while_parse_list_while_parse_dict_while_dom
     (Inl (Inl (self, tokens)))"
  shows "\<forall>v r. Token_parse self tokens = Inr (v, r) \<longrightarrow> length r \<le> length tokens"
  using assms
proof (rule parser_pinduct(1)
    [where ?P1.0 = "\<lambda>self tokens. \<forall>v r. Token_parse self tokens = Inr (v, r) \<longrightarrow> length r \<le> length tokens"
       and ?P2.0 = "\<lambda>data t tokens. \<forall>v r. LeftRound_while data t tokens = Inr (v, r) \<longrightarrow> length r \<le> length tokens"
       and ?P3.0 = "\<lambda>data t tokens. \<forall>v r. LeftSquare_while data t tokens = Inr (v, r) \<longrightarrow> length r \<le> length tokens"
       and ?P4.0 = "\<lambda>data t tokens. \<forall>v r. LeftBrace_while data t tokens = Inr (v, r) \<longrightarrow> length r \<le> length tokens"
       and ?P5.0 = "\<lambda>data t tokens. \<forall>v r. parse_list_while data t tokens = Inr (v, r) \<longrightarrow> length r \<le> length tokens"
       and ?P6.0 = "\<lambda>data t tokens. \<forall>v r. parse_dict_while data t tokens = Inr (v, r) \<longrightarrow> length r \<le> length tokens"],
    goal_cases)
  case (1 self tokens)
  show ?case
    apply (simp only: Token_parse.psimps [OF 1(1)])
    using 1(2-)
    apply -
    apply (atomize (full))
    apply (cases "tok self")
    apply (auto simp: advance_eq_Inr andthen_eq_Inr)
    done
next
  case (2 data t tokens)
  show ?case
    apply (simp only: LeftRound_while.psimps [OF 2(1)])
    using 2(2-)
    apply -
    apply (atomize (full))
    apply (auto simp: advance_eq_Inr andthen_eq_Inr split: if_splits)
    done
next
  case (3 data t tokens)
  show ?case
    apply (simp only: LeftSquare_while.psimps [OF 3(1)])
    using 3(2-)
    apply -
    apply (atomize (full))
    apply (auto simp: advance_eq_Inr andthen_eq_Inr split: if_splits)
    done
next
  case (4 data t tokens)
  show ?case
    apply (simp only: LeftBrace_while.psimps [OF 4(1)])
    using 4(2-)
    apply -
    apply (atomize (full))
    apply (auto simp: advance_eq_Inr andthen_eq_Inr split: if_splits)
    done
next
  case (5 data t tokens)
  show ?case
    apply (simp only: parse_list_while.psimps [OF 5(1)])
    using 5(2-)
    apply -
    apply (atomize (full))
    apply (auto simp: advance_eq_Inr andthen_eq_Inr split: if_splits)
    done
next
  case (6 data t tokens)
  show ?case
    apply (simp only: parse_dict_while.psimps [OF 6(1)])
    using 6(2-)
    apply -
    apply (atomize (full))
    apply (auto simp: advance_eq_Inr andthen_eq_Inr all_conj_distrib split: if_splits)
    done
qed


lemma Token_parse_shorter_dom':
  "Token_parse_LeftRound_while_LeftSquare_while_LeftBrace_while_parse_list_while_parse_dict_while_dom
     (Inl (Inl (self, tokens))) \<Longrightarrow> Token_parse self tokens = Inr (v, r) \<Longrightarrow> length r \<le> length tokens"
  using Token_parse_shorter_dom by blast

termination Token_parse
  apply (relation "measure (\<lambda>x. case x of
      Inl (Inl (self, tokens)) \<Rightarrow> 2 * length tokens
    | Inl (Inr (Inl (data, t, tokens))) \<Rightarrow> 2 * length tokens + 1
    | Inl (Inr (Inr (data, t, tokens))) \<Rightarrow> 2 * length tokens + 1
    | Inr (Inl (data, t, tokens)) \<Rightarrow> 2 * length tokens + 1
    | Inr (Inr (Inl (data, t, tokens))) \<Rightarrow> 2 * length tokens + 1
    | Inr (Inr (Inr (data, t, tokens))) \<Rightarrow> 2 * length tokens + 1)")
  apply (auto simp: advance_eq_Inr split: if_splits dest!: Token_parse_shorter_dom')
  done

declare Token_parse.simps [simp del] LeftRound_while.simps [simp del]
  LeftSquare_while.simps [simp del] LeftBrace_while.simps [simp del]
  parse_list_while.simps [simp del] parse_dict_while.simps [simp del]

lemmas parser_induct =
  Token_parse_LeftRound_while_LeftSquare_while_LeftBrace_while_parse_list_while_parse_dict_while.induct

text \<open>No \<^verbatim>\<open>parse\<close> method returns more tokens than it was given.\<close>

lemma Token_parse_shorter_all:
  "\<forall>v r. Token_parse self tokens = Inr (v, r) \<longrightarrow> length r \<le> length tokens"
proof (rule parser_induct(1)
    [where ?P1.0 = "\<lambda>self tokens. \<forall>v r. Token_parse self tokens = Inr (v, r) \<longrightarrow> length r \<le> length tokens"
       and ?P2.0 = "\<lambda>data t tokens. \<forall>v r. LeftRound_while data t tokens = Inr (v, r) \<longrightarrow> length r \<le> length tokens"
       and ?P3.0 = "\<lambda>data t tokens. \<forall>v r. LeftSquare_while data t tokens = Inr (v, r) \<longrightarrow> length r \<le> length tokens"
       and ?P4.0 = "\<lambda>data t tokens. \<forall>v r. LeftBrace_while data t tokens = Inr (v, r) \<longrightarrow> length r \<le> length tokens"
       and ?P5.0 = "\<lambda>data t tokens. \<forall>v r. parse_list_while data t tokens = Inr (v, r) \<longrightarrow> length r \<le> length tokens"
       and ?P6.0 = "\<lambda>data t tokens. \<forall>v r. parse_dict_while data t tokens = Inr (v, r) \<longrightarrow> length r \<le> length tokens"],
    goal_cases)
  case (1 self tokens)
  show ?case
    apply (subst Token_parse.simps)
    using 1
    apply -
    apply (atomize (full))
    apply (cases "tok self")
    apply (auto simp: advance_eq_Inr andthen_eq_Inr)
    done
next
  case (2 data t tokens)
  show ?case
    apply (subst LeftRound_while.simps)
    using 2
    apply -
    apply (atomize (full))
    apply (auto simp: advance_eq_Inr andthen_eq_Inr split: if_splits)
    done
next
  case (3 data t tokens)
  show ?case
    apply (subst LeftSquare_while.simps)
    using 3
    apply -
    apply (atomize (full))
    apply (auto simp: advance_eq_Inr andthen_eq_Inr split: if_splits)
    done
next
  case (4 data t tokens)
  show ?case
    apply (subst LeftBrace_while.simps)
    using 4
    apply -
    apply (atomize (full))
    apply (auto simp: advance_eq_Inr andthen_eq_Inr split: if_splits)
    done
next
  case (5 data t tokens)
  show ?case
    apply (subst parse_list_while.simps)
    using 5
    apply -
    apply (atomize (full))
    apply (auto simp: advance_eq_Inr andthen_eq_Inr split: if_splits)
    done
next
  case (6 data t tokens)
  show ?case
    apply (subst parse_dict_while.simps)
    using 6
    apply -
    apply (atomize (full))
    apply (auto simp: advance_eq_Inr andthen_eq_Inr all_conj_distrib split: if_splits)
    done
qed


lemma Token_parse_shorter:
  "Token_parse self tokens = Inr (v, r) \<Longrightarrow> length r \<le> length tokens"
  using Token_parse_shorter_all by blast

text \<open>
  The loop \<^verbatim>\<open>for tok in tokens: if tok.id != NewLine.id: break\<close> leaves in
  \<^verbatim>\<open>tok\<close> the first token that is not a NewLine, or the last token when all are.
\<close>

fun first_token :: "token list \<Rightarrow> error + token \<times> token list" where
  "first_token [] = Inl UnboundLocalError"
| "first_token [t] = Inr (t, [])"
| "first_token (t # tokens) =
     (if token_id t \<noteq> ''NewLine'' then Inr (t, tokens) else first_token tokens)"

function parse_while :: "(pyval \<times> pyval) list \<Rightarrow> token \<Rightarrow> token list \<Rightarrow> error + pyval" where
  "parse_while data t tokens =
     (if token_id t = ''End'' then Inr (PyDict data)
      else
        andthen (Token_parse t tokens) (\<lambda>(key, tokens).
        andthen (advance tokens (One ''Colon'')) (\<lambda>(_, tokens).
        andthen (advance tokens Anything) (\<lambda>(t, tokens).
        andthen (if token_id t = ''NewLine'' then advance tokens Anything else Inr (t, tokens))
          (\<lambda>(t, tokens).
        andthen (Token_parse t tokens) (\<lambda>(v, tokens).
        andthen (store key v data) (\<lambda>data.
        andthen (advance tokens (One ''NewLine'')) (\<lambda>(_, tokens).
        andthen (advance tokens Anything) (\<lambda>(t, tokens).
          parse_while data t tokens)))))))))"
  by pat_completeness auto
termination
  by (relation "measure (\<lambda>(data, t, tokens). length tokens)")
     (auto simp: advance_eq_Inr split: if_splits dest!: Token_parse_shorter)

declare parse_while.simps [simp del]

definition parse :: "string \<Rightarrow> error + pyval" where
  "parse input_string =
     andthen (tokenize input_string) (\<lambda>tokens.
     andthen (first_token tokens) (\<lambda>(t, tokens). parse_while [] t tokens))"

section \<open>Properties\<close>

subsection \<open>Block sequence under a key (C1)\<close>

text \<open>
  C1. The text with the key \<^verbatim>\<open>items\<close> followed by the two indented lines
  \<^verbatim>\<open>- 1\<close> and \<^verbatim>\<open>- 2\<close> is to decode to the mapping of \<^verbatim>\<open>items\<close> to the
  sequence 1, 2. The input is stripped before it is scanned and \<^verbatim>\<open>tokenize\<close>
  closes the stream with a bare End: no NewLine follows the last item and no Dedent
  closes the block, so \<^verbatim>\<open>_parse_list\<close>, which asks for a NewLine after every item,
  raises \<^verbatim>\<open>SyntaxError\<close> on End, with or without a line break at the end of the
  input. When another entry and a comment line follow, so that a Dedent and the
  NewLines are there, the same block decodes to the sequence.
\<close>

theorem C1_block_sequence_at_end_of_input:
  "parse ''items:\<newline>    - 1\<newline>    - 2'' =
     Inl (SyntaxError \<lparr>tok = End, line = None\<rparr> ''NewLine'' None)
   \<and> parse ''items:\<newline>    - 1\<newline>    - 2\<newline>'' =
     Inl (SyntaxError \<lparr>tok = End, line = None\<rparr> ''NewLine'' None)
   \<and> parse ''items:\<newline>    - 1\<newline>    - 2\<newline>b: 0\<newline>#'' =
     Inr (PyDict [(PyStr ''items'', PyList [PyInt 1, PyInt 2]), (PyStr ''b'', PyInt 0)])"
  by code_simp

subsection \<open>Duplicate keys (C3)\<close>

text \<open>
  C3. A document with the top-level entry \<^verbatim>\<open>a: 1\<close> and later \<^verbatim>\<open>a: 2\<close> is to
  decode to a mapping in which \<^verbatim>\<open>a\<close> has the value 2 at the place where \<^verbatim>\<open>a\<close>
  was first seen. On the document of just these two lines the last entry is followed
  by End instead of a NewLine and decoding raises \<^verbatim>\<open>SyntaxError\<close>. Where the last
  entry is followed by a line break that survives the stripping (here a comment line),
  the later value replaces the earlier one in the first place.
\<close>

theorem C3_duplicate_key_at_end_of_input:
  "parse ''a: 1\<newline>a: 2'' = Inl (SyntaxError \<lparr>tok = End, line = None\<rparr> ''NewLine'' None)
   \<and> parse ''a: 1\<newline>b: 0\<newline>a: 2\<newline>#'' =
     Inr (PyDict [(PyStr ''a'', PyInt 2), (PyStr ''b'', PyInt 0)])"
  by code_simp

subsection \<open>The message of a syntax error (C4)\<close>

text \<open>
  C4. Decoding \<^verbatim>\<open>a: [1, 2\<close> is to fail with a \<^verbatim>\<open>SyntaxError\<close> that names the
  expected closing kinds and the line of the unexpected End token. It does fail with a
  \<^verbatim>\<open>SyntaxError\<close> on End, but the text of expected kinds is empty and the line is
  \<^verbatim>\<open>None\<close>: \<^verbatim>\<open>advance\<close> turns the tuple of classes into an iterator, \<^verbatim>\<open>all\<close>
  exhausts it, and the join that builds the message finds nothing left; and End is
  built without a line. With a single expected class the list is kept and named, as the
  second equation shows.
\<close>

theorem C4_unterminated_sequence_message:
  "parse ''a: [1, 2'' = Inl (SyntaxError \<lparr>tok = End, line = None\<rparr> [] None)
   \<and> advance [\<lparr>tok = End, line = None\<rparr>] (One ''Colon'') =
     Inl (SyntaxError \<lparr>tok = End, line = None\<rparr> ''Colon'' None)"
  by code_simp

subsection \<open>The conversion of a literal (C2)\<close>

text \<open>
  The cascade in the words of the specification: an Integer when the text is a
  non-empty run of decimal digits; else a Float when \<^verbatim>\<open>float\<close> accepts the text;
  else a Boolean when the text is one of the six words for true or the six for false;
  else Null when it is one of the three spellings of null; else a String holding the
  text.
\<close>

definition Literal_cascade :: "string \<Rightarrow> tok" where
  "Literal_cascade text =
     (if text \<noteq> [] \<and> list_all is_digit text then Integer (int (int_of_digits text))
      else
        (case float text of
           Some f \<Rightarrow> Float f
         | None \<Rightarrow>
             if text \<in> set [''true'', ''True'', ''TRUE'', ''yes'', ''Yes'', ''YES''] then Boolean True
             else if text \<in> set [''false'', ''False'', ''FALSE'', ''no'', ''No'', ''NO''] then Boolean False
             else if text \<in> set [''null'', ''Null'', ''NULL''] then NoneValue
             else String text))"

lemma Boolean_convert_eq:
  "Boolean_convert text =
     (if text \<in> set [''true'', ''True'', ''TRUE'', ''yes'', ''Yes'', ''YES''] then Some True
      else if text \<in> set [''false'', ''False'', ''FALSE'', ''no'', ''No'', ''NO''] then Some False
      else None)"
  by (simp add: Boolean_convert_def Boolean_mapping_def split del: if_split cong: if_cong)

lemma Literal_do_cascade: "Literal_do text = Literal_cascade text"
proof (cases "isdigit text")
  case True
  then have "Integer_convert text = Some (int (int_of_digits text))"
    by (simp add: Integer_convert_def)
  then have "Literal_do text = Integer (int (int_of_digits text))"
    by (simp add: Literal_do_def)
  moreover from True have "text \<noteq> [] \<and> list_all is_digit text"
    by (simp add: isdigit_def)
  then have "Literal_cascade text = Integer (int (int_of_digits text))"
    unfolding Literal_cascade_def by simp
  ultimately show ?thesis by simp
next
  case False
  then have ic: "Integer_convert text = None"
    by (simp add: Integer_convert_def)
  from False have nd: "(text \<noteq> [] \<and> list_all is_digit text) = False"
    by (simp add: isdigit_def)
  show ?thesis
  proof (cases "float text")
    case (Some f)
    then have "Literal_do text = Float f"
      by (simp add: Literal_do_def ic Float_convert_def)
    moreover have "Literal_cascade text = Float f"
      unfolding Literal_cascade_def by (simp only: nd if_False Some option.case)
    ultimately show ?thesis by simp
  next
    case None
    have "Literal_do text =
        (case Boolean_convert text of
           Some b \<Rightarrow> Boolean b
         | None \<Rightarrow> if text \<in> set [''null'', ''Null'', ''NULL''] then NoneValue else String text)"
      by (simp add: Literal_do_def ic Float_convert_def None split: option.splits split del: if_split)
    moreover define T where "T = (text \<in> set [''true'', ''True'', ''TRUE'', ''yes'', ''Yes'', ''YES''])"
    moreover define F where "F = (text \<in> set [''false'', ''False'', ''FALSE'', ''no'', ''No'', ''NO''])"
    moreover have "Boolean_convert text = (if T then Some True else if F then Some False else None)"
      unfolding T_def F_def by (rule Boolean_convert_eq)
    moreover have "Literal_cascade text =
        (if T then Boolean True else if F then Boolean False
         else if text \<in> set [''null'', ''Null'', ''NULL''] then NoneValue else String text)"
      unfolding Literal_cascade_def T_def F_def by (simp only: nd if_False None option.case)
    ultimately show ?thesis
      by (cases T; cases F; simp only: if_True if_False option.case)
  qed
qed


subsection \<open>Tokens without a \<^verbatim>\<open>parse\<close> of their own (C6)\<close>

text \<open>The classes that override \<^verbatim>\<open>parse\<close>.\<close>

fun overrides_parse :: "tok \<Rightarrow> bool" where
  "overrides_parse LeftRound = True"
| "overrides_parse LeftSquare = True"
| "overrides_parse LeftBrace = True"
| "overrides_parse (Indent _) = True"
| "overrides_parse _ = False"

text \<open>
  C6, as amended. A token of a class that does not override \<^verbatim>\<open>parse\<close>, standing
  where a value is expected, is not refused there: \<^verbatim>\<open>Token.parse\<close> returns the
  token's own value (\<^verbatim>\<open>None\<close> for punctuation) and consumes nothing.
\<close>

theorem C6_no_override_returns_value:
  "\<not> overrides_parse (tok self) \<Longrightarrow> Token_parse self tokens = Inr (value_of (tok self), tokens)"
  by (cases "tok self") (simp_all add: Token_parse.simps)

theorem C6_no_override_returns_value_witness:
  "\<not> overrides_parse (tok \<lparr>tok = Comma, line = Some 1\<rparr>)
   \<and> Token_parse \<lparr>tok = Comma, line = Some 1\<rparr> [\<lparr>tok = NewLine (Some 1), line = None\<rparr>] =
       Inr (PyNone, [\<lparr>tok = NewLine (Some 1), line = None\<rparr>])"
  using C6_no_override_returns_value [of "\<lparr>tok = Comma, line = Some 1\<rparr>" "[\<lparr>tok = NewLine (Some 1), line = None\<rparr>]"]
  by simp

text \<open>
  The claim as stated, that such a token makes decoding fail with a syntax error, is
  false on the entry \<^verbatim>\<open>a: ,\<close> followed by a comment line: it decodes, with
  \<^verbatim>\<open>None\<close> as the value of \<^verbatim>\<open>a\<close>.
\<close>

theorem C6_comma_as_value_counterexample:
  "parse ''a: ,\<newline>#'' = Inr (PyDict [(PyStr ''a'', PyNone)])"
  by code_simp

subsection \<open>Text that no pattern matches (C9)\<close>






subsection \<open>Blank input (C10)\<close>

lemma strip_spaces:
  assumes "list_all is_space s"
  shows "strip s = []"
proof -
  from assms have e: "dropWhile is_space s = []"
    by (simp add: list_all_iff)
  show ?thesis
    unfolding strip_def e by simp
qed

lemma scan_Nil: "scan bol [] = Inr []"
  by (subst scan.simps) (simp add: first_match_Nil)

text \<open>
  C10. Decoding the empty string, or a string of white space and line breaks only,
  succeeds and returns the empty mapping.
\<close>

theorem C10_blank_input: "list_all is_space s \<Longrightarrow> parse s = Inr (PyDict [])"
  by (simp add: parse_def tokenize_def strip_spaces scan_Nil parse_while.simps token_id_def)

theorem C10_blank_input_witness:
  "parse [] = Inr (PyDict []) \<and> parse '' \<newline>\<newline>  '' = Inr (PyDict [])"
  using C10_blank_input [of "[]"] C10_blank_input [of "'' \<newline>\<newline>  ''"]
  by (simp add: is_space_def)

subsection \<open>Negative numbers (C5)\<close>

























subsection \<open>The indent stack (C7)\<close>

text \<open>
  The stack is increasing when it is not empty, starts with the sentinel 0 and is
  strictly sorted. \<open>states\<close> lists the states the loop of \<^verbatim>\<open>tokenize\<close> is in
  before each token and after the last one it handles.
\<close>

definition increasing :: "nat list \<Rightarrow> bool" where
  "increasing stack = (stack \<noteq> [] \<and> hd stack = 0 \<and> sorted_wrt (<) stack)"

fun states :: "state \<Rightarrow> token list \<Rightarrow> state list" where
  "states st [] = [st]"
| "states st (t # tokens) =
     st # (case tokenize_step st t of Inl e \<Rightarrow> [] | Inr (out, st') \<Rightarrow> states st' tokens)"

definition stack_ok :: "state \<Rightarrow> bool" where
  "stack_ok st = (increasing (indent_stack st) \<and> last (indent_stack st) \<le> curr_indent st)"

lemma sorted_wrt_le_last:
  "sorted_wrt (<) xs \<Longrightarrow> x \<in> set xs \<Longrightarrow> x \<le> last (xs :: nat list)"
  by (induction xs) (auto simp: less_imp_le)

lemma increasing_butlast:
  assumes "increasing stack" "last stack > cur"
  shows "increasing (butlast stack)"
proof -
  from assms obtain xs x where s: "stack = xs @ [x]"
    unfolding increasing_def by (cases stack rule: rev_cases) auto
  with assms have "xs \<noteq> []"
    unfolding increasing_def by (cases xs) auto
  with assms s show ?thesis
    unfolding increasing_def by (auto simp: sorted_wrt_append)
qed

lemma dedents_increasing:
  "increasing stack \<Longrightarrow>
   \<exists>out stack'. dedents stack cur pos = Inr (out, stack') \<and> increasing stack' \<and> last stack' \<le> cur"
proof (induction stack cur pos rule: dedents.induct)
  case (1 stack cur pos)
  show ?case
  proof (cases "last stack > cur")
    case True
    with 1 have "increasing (butlast stack)"
      by (simp add: increasing_butlast)
    moreover from 1 have "stack \<noteq> []" by (simp add: increasing_def)
    ultimately obtain out stack' where
      "dedents (butlast stack) cur pos = Inr (out, stack')" "increasing stack'" "last stack' \<le> cur"
      using 1(1) True by blast
    with True \<open>stack \<noteq> []\<close> show ?thesis
      by (subst dedents.simps) simp
  next
    case False
    with 1 show ?thesis
      by (subst dedents.simps) (simp add: increasing_def)
  qed
qed

lemma increasing_push:
  assumes "increasing stack" "last stack \<le> cur" "cur < indent"
  shows "increasing (stack @ [indent])"
proof -
  from assms have "\<forall>x\<in>set stack. x < indent"
    using sorted_wrt_le_last [of stack] by (fastforce simp: increasing_def)
  with assms show ?thesis
    by (auto simp: increasing_def sorted_wrt_append)
qed

lemma tokenize_step_ok:
  assumes "stack_ok st"
  shows "(\<exists>out st'. tokenize_step st t = Inr (out, st') \<and> stack_ok st')
         \<or> (tokenize_step st t = Inl TypeError \<and> tok t = NewLine None)"
proof (cases "tok t = NewLine None")
  case True
  then show ?thesis by (simp add: tokenize_step_def)
next
  case False
  define indent where "indent = (case tok t of Indent n \<Rightarrow> n | _ \<Rightarrow> 0)"
  define changed where "changed = (newline_last st \<and> indent \<noteq> curr_indent st)"
  define cur where "cur = (if changed then indent else curr_indent st)"
  from False obtain t' pos nl where
    stamp: "(case tok t of
                 NewLine None \<Rightarrow> Inl TypeError
               | NewLine (Some n) \<Rightarrow> Inr (t, position st + n, True)
               | _ \<Rightarrow> Inr (t\<lparr>line := Some (position st)\<rparr>, position st, False)) = Inr (t', pos, nl)"
    by (cases "tok t") (auto split: option.splits)
  from assms have inc: "increasing (indent_stack st)" and le: "last (indent_stack st) \<le> curr_indent st"
    by (simp_all add: stack_ok_def)
  consider (less) "changed" "indent < curr_indent st"
    | (more) "changed" "indent > curr_indent st"
    | (same) "\<not> changed"
    unfolding changed_def by fastforce
  then show ?thesis
  proof cases
    case less
    from dedents_increasing [OF inc, of indent pos] obtain out stack' where
      d: "dedents (indent_stack st) indent pos = Inr (out, stack')" "increasing stack'" "last stack' \<le> indent"
      by blast
    with less stamp show ?thesis
      unfolding tokenize_step_def indent_def [symmetric] Let_def changed_def [symmetric]
      by (simp add: stack_ok_def)
  next
    case more
    with inc le have "increasing (indent_stack st @ [indent])"
      by (simp add: increasing_push)
    with more stamp show ?thesis
      unfolding tokenize_step_def indent_def [symmetric] Let_def changed_def [symmetric]
      by (simp add: stack_ok_def)
  next
    case same
    with inc le stamp show ?thesis
      unfolding tokenize_step_def indent_def [symmetric] Let_def changed_def [symmetric]
      by (simp add: stack_ok_def)
  qed
qed

lemma states_ok:
  "stack_ok st \<Longrightarrow> list_all stack_ok (states st tokens)"
proof (induction tokens arbitrary: st)
  case Nil
  then show ?case by simp
next
  case (Cons t tokens)
  from tokenize_step_ok [OF Cons.prems, of t] Cons show ?case
    by auto
qed

lemma initial_ok: "stack_ok (initial input_string)"
  by (simp add: stack_ok_def initial_def increasing_def)


text \<open>
  C7. Whatever the input and whatever the tokens, in every state the loop passes
  through, the indent stack is strictly increasing from its sentinel 0 and its top is
  at most the current indentation. Inside a round, the popping loop only removes
  elements from the top (\<open>dedents_increasing\<close>) and a push adds a width above the
  top (\<open>increasing_push\<close>).
\<close>

theorem C7_indent_stack_increasing:
  "list_all stack_ok (states (initial input_string) tokens)"
  using initial_ok by (rule states_ok)


subsection \<open>The list of tokens stands for the generator\<close>

lemma cascade_not_NewLine:
  "(if A then Integer a
    else (case F of
            Some f \<Rightarrow> Float f
          | None \<Rightarrow> if B then Boolean True else if C then Boolean False
                    else if D then NoneValue else String x)) \<noteq> NewLine v"
  by (simp split: option.split)

lemma Literal_do_not_NewLine: "Literal_do x \<noteq> NewLine v"
  unfolding Literal_do_cascade Literal_cascade_def by (rule cascade_not_NewLine)

lemma first_match_action:
  "first_match phrases bol s = Some (n, action) \<Longrightarrow> action \<in> set (map snd phrases)"
  by (induction phrases) (auto split: option.splits)

lemma lexicon_do:
  assumes "first_match lexicon bol s = Some (n, Some do)"
  shows "do x \<noteq> Inr (NewLine None)" and "x \<noteq> [] \<Longrightarrow> do x = Inl e \<Longrightarrow> e = TokenError x"
proof -
  from assms have "Some do \<in> set (map snd lexicon)"
    by (rule first_match_action)
  then consider "do = String_do" | "do = Inr \<circ> Literal_do" | c where "do = Symbol_do c" "c \<noteq> NewLine None"
    | "do = Indent_do" | "do = NewLine_do" | "do = Unknown_do"
    unfolding lexicon_def by (simp only: list.map snd_conv list.set insert_iff empty_iff option.inject) blast
  note c = this
  have s1: "String_do x \<noteq> Inr (NewLine None)"
    by (cases x) (simp_all add: String_do_def)
  have s2: "x \<noteq> [] \<Longrightarrow> String_do x \<noteq> Inl e"
    by (cases x) (simp_all add: String_do_def)
  from c show "do x \<noteq> Inr (NewLine None)"
    by cases (simp_all add: s1 Symbol_do_def Indent_do_def NewLine_do_def Unknown_do_def
        Literal_do_not_NewLine)
  from c show "x \<noteq> [] \<Longrightarrow> do x = Inl e \<Longrightarrow> e = TokenError x"
    by cases (simp_all add: s2 Symbol_do_def Indent_do_def NewLine_do_def Unknown_do_def)
qed

lemma scan_tokens:
  "scan bol s = Inr ts \<Longrightarrow> \<forall>t\<in>set ts. tok t \<noteq> NewLine None"
proof (induction bol s arbitrary: ts rule: scan.induct)
  case (1 bol s)
  show ?case
  proof (cases "first_match lexicon bol s")
    case None
    with 1(3) show ?thesis
      by (subst (asm) scan.simps) auto
  next
    case (Some p)
    obtain n action where p: "p = (n, action)" by (cases p)
    show ?thesis
    proof (cases "n = 0")
      case True
      with 1(3) Some p show ?thesis
        by (subst (asm) scan.simps) auto
    next
      case False
      show ?thesis
      proof (cases action)
        case None
        with 1(3) Some p False have "scan (last (take n s) = newline) (drop n s) = Inr ts"
          by (subst (asm) scan.simps) simp
        with 1(1) [OF Some p [symmetric] False None] show ?thesis
          by simp
      next
        case (Some do)
        with 1(3) \<open>first_match lexicon bol s = Some p\<close> p False obtain t result where
          t: "do (take n s) = Inr t"
          and r: "scan (last (take n s) = newline) (drop n s) = Inr result"
          and ts: "ts = \<lparr>tok = t, line = None\<rparr> # result"
          by (subst (asm) scan.simps) (auto split: sum.splits)
        from 1(2) [OF \<open>first_match lexicon bol s = Some p\<close> p [symmetric] False Some t r]
        have "\<forall>t\<in>set result. tok t \<noteq> NewLine None" .
        moreover from lexicon_do(1) [of bol s n "do" "take n s"] Some p
          \<open>first_match lexicon bol s = Some p\<close> t
        have "t \<noteq> NewLine None" by auto
        ultimately show ?thesis using ts by simp
      qed
    qed
  qed
qed

lemma scan_error: "scan bol s = Inl e \<Longrightarrow> \<exists>text. e = TokenError text"
proof (induction bol s rule: scan.induct)
  case (1 bol s)
  show ?case
  proof (cases "first_match lexicon bol s")
    case None
    with 1(3) show ?thesis
      by (subst (asm) scan.simps) auto
  next
    case (Some p)
    obtain n action where p: "p = (n, action)" by (cases p)
    show ?thesis
    proof (cases "n = 0")
      case True
      with 1(3) Some p show ?thesis
        by (subst (asm) scan.simps) auto
    next
      case False
      show ?thesis
      proof (cases action)
        case None
        with 1(3) Some p False have "scan (last (take n s) = newline) (drop n s) = Inl e"
          by (subst (asm) scan.simps) simp
        with 1(1) [OF Some p [symmetric] False None] show ?thesis
          by simp
      next
        case act: (Some do)
        show ?thesis
        proof (cases "do (take n s)")
          case (Inl e')
          with 1(3) Some p False act have "e = e'"
            by (subst (asm) scan.simps) simp
          moreover from Some p False first_match_Nil [of bol] have "take n s \<noteq> []"
            by (cases s) auto
          ultimately show ?thesis
            using lexicon_do(2) [of bol s n "do" "take n s" e'] Some p act Inl by auto
        next
          case (Inr t)
          with 1(3) Some p False act have "scan (last (take n s) = newline) (drop n s) = Inl e"
            by (subst (asm) scan.simps) (auto split: sum.splits)
          with 1(2) [OF Some p [symmetric] False act Inr] show ?thesis
            by simp
        qed
      qed
    qed
  qed
qed

lemma tokenize_loop_total:
  "stack_ok st \<Longrightarrow> \<forall>t\<in>set tokens. tok t \<noteq> NewLine None \<Longrightarrow>
   \<exists>out st'. tokenize_loop st tokens = Inr (out, st') \<and> stack_ok st'"
proof (induction tokens arbitrary: st)
  case Nil
  then show ?case by simp
next
  case (Cons t tokens)
  from tokenize_step_ok [OF Cons.prems(1), of t] Cons.prems(2)
  obtain out st' where s: "tokenize_step st t = Inr (out, st')" "stack_ok st'"
    by auto
  with Cons.IH [of st'] Cons.prems(2) obtain outs st'' where
    "tokenize_loop st' tokens = Inr (outs, st'')" "stack_ok st''"
    by auto
  with s show ?case by simp
qed

lemma tokenize_raises_only_TokenError:
  assumes "tokenize input_string = Inl e"
  shows "\<exists>text. e = TokenError text"
proof (cases "scan True (strip input_string)")
  case (Inl e')
  with assms have "e = e'" by (simp add: tokenize_def)
  with Inl scan_error show ?thesis by blast
next
  case (Inr tokens)
  with tokenize_loop_total [OF initial_ok scan_tokens [OF Inr], of input_string] assms
  show ?thesis by (auto simp: tokenize_def)
qed

subsection \<open>Trailing commas in inline collections (C8)\<close>

lemma Token_parse_plain:
  "\<not> overrides_parse (tok self) \<Longrightarrow> Token_parse self tokens = Inr (value_of (tok self), tokens)"
  by (cases "tok self") (simp_all add: Token_parse.simps)

lemma advance_accepts: "accepts a t \<Longrightarrow> advance (t # rest) a = Inr (t, rest)"
  by (simp add: advance_eq_Inr)

lemma hashable_value_of: "hashable (value_of t)"
  by (cases t rule: value_of.cases) simp_all

fun separated :: "token \<Rightarrow> token list \<Rightarrow> token list" where
  "separated c [] = []"
| "separated c [x] = [x]"
| "separated c (x # y # xs) = x # c # separated c (y # xs)"

fun entries :: "token \<Rightarrow> token \<Rightarrow> (token \<times> token) list \<Rightarrow> token list" where
  "entries s c [] = []"
| "entries s c [(k, v)] = [k, s, v]"
| "entries s c ((k, v) # kv # kvs) = k # s # v # c # entries s c (kv # kvs)"

definition plain_item :: "string \<Rightarrow> token \<Rightarrow> bool" where
  "plain_item closer x = (\<not> overrides_parse (tok x) \<and> token_id x \<noteq> closer)"

definition item_values :: "token list \<Rightarrow> pyval list" where
  "item_values items = map (\<lambda>x. value_of (tok x)) items"

definition stored :: "(pyval \<times> pyval) list \<Rightarrow> (token \<times> token) list \<Rightarrow> (pyval \<times> pyval) list" where
  "stored data kvs = foldl (\<lambda>d (k, v). setitem (value_of (tok k)) (value_of (tok v)) d) data kvs"

lemma separated_Cons: "separated c (x # xs) = x # tl (separated c (x # xs))"
  by (cases xs) simp_all

lemma separated_tl:
  "tl (separated c (x # y # ys)) @ tail = c # y # (tl (separated c (y # ys)) @ tail)"
  by (cases ys) simp_all

lemma entries_tl:
  "tl (entries s c ((k, v) # (k', v') # kvs)) @ tail =
     s # v # c # k' # (tl (entries s c ((k', v') # kvs)) @ tail)"
  by (cases kvs) auto

lemma LeftSquare_while_closer:
  "token_id r = ''RightSquare'' \<Longrightarrow> LeftSquare_while data r rest = Inr (PyList data, rest)"
  by (subst LeftSquare_while.simps) simp

lemma LeftSquare_while_step:
  assumes "plain_item ''RightSquare'' x" "token_id c = ''Comma''"
  shows "LeftSquare_while data x (c # y # T) = LeftSquare_while (data @ [value_of (tok x)]) y T"
  using assms
  by (subst LeftSquare_while.simps) (simp add: plain_item_def Token_parse_plain advance_accepts)

lemma LeftSquare_while_last:
  assumes "plain_item ''RightSquare'' x" "token_id r = ''RightSquare''"
  shows "LeftSquare_while data x (r # rest) = Inr (PyList (data @ [value_of (tok x)]), rest)"
  using assms
  by (subst LeftSquare_while.simps)
     (simp add: plain_item_def Token_parse_plain advance_accepts LeftSquare_while_closer)

lemma LeftSquare_while_plain:
  assumes "token_id c = ''Comma''" "token_id r = ''RightSquare''"
    and "tail = r # rest \<or> tail = c # r # rest"
  shows "list_all (plain_item ''RightSquare'') (x # xs) \<Longrightarrow>
     LeftSquare_while data x (tl (separated c (x # xs)) @ tail) =
       Inr (PyList (data @ item_values (x # xs)), rest)"
proof (induction xs arbitrary: x data)
  case Nil
  then have x: "plain_item ''RightSquare'' x" by simp
  from assms(3) show ?case
  proof
    assume "tail = r # rest"
    with LeftSquare_while_last [OF x assms(2)] show ?thesis
      by (simp add: item_values_def)
  next
    assume "tail = c # r # rest"
    with LeftSquare_while_step [OF x assms(1)] LeftSquare_while_closer [OF assms(2)] show ?thesis
      by (simp add: item_values_def)
  qed
next
  case (Cons y ys)
  then have x: "plain_item ''RightSquare'' x" and rest: "list_all (plain_item ''RightSquare'') (y # ys)"
    by simp_all
  show ?case
    unfolding separated_tl LeftSquare_while_step [OF x assms(1)]
    using Cons.IH [OF rest, of "data @ [value_of (tok x)]"] by (simp add: item_values_def)
qed

lemma LeftSquare_parse_plain:
  assumes "tok l = LeftSquare" "token_id c = ''Comma''" "token_id r = ''RightSquare''"
    and "items \<noteq> []" "list_all (plain_item ''RightSquare'') items"
    and "tail = r # rest \<or> tail = c # r # rest"
  shows "Token_parse l (separated c items @ tail) = Inr (PyList (item_values items), rest)"
proof -
  from assms(4) obtain x xs where items: "items = x # xs" by (cases items) auto
  have e: "separated c items @ tail = x # (tl (separated c (x # xs)) @ tail)"
    unfolding items by (cases xs) simp_all
  have "Token_parse l (x # T) = LeftSquare_while [] x T" for T
    using assms(1) by (subst Token_parse.simps) (simp add: advance_accepts)
  then show ?thesis
    unfolding e
    using LeftSquare_while_plain [OF assms(2,3,6), of x xs "[]"] assms(5) items by simp
qed

text \<open>Inline mappings\<close>

lemma LeftBrace_while_closer:
  "token_id r = ''RightBrace'' \<Longrightarrow> LeftBrace_while data r rest = Inr (PyDict data, rest)"
  by (subst LeftBrace_while.simps) simp

lemma LeftBrace_while_step:
  assumes "plain_item ''RightBrace'' k" "\<not> overrides_parse (tok v)"
    "token_id s = ''Colon''" "token_id c = ''Comma''"
  shows "LeftBrace_while data k (s # v # c # k' # T) =
     LeftBrace_while (setitem (value_of (tok k)) (value_of (tok v)) data) k' T"
  using assms
  by (subst LeftBrace_while.simps)
     (simp add: plain_item_def Token_parse_plain advance_accepts store_def hashable_value_of)

lemma LeftBrace_while_last:
  assumes "plain_item ''RightBrace'' k" "\<not> overrides_parse (tok v)"
    "token_id s = ''Colon''" "token_id r = ''RightBrace''"
  shows "LeftBrace_while data k (s # v # r # rest) =
     Inr (PyDict (setitem (value_of (tok k)) (value_of (tok v)) data), rest)"
  using assms
  by (subst LeftBrace_while.simps)
     (simp add: plain_item_def Token_parse_plain advance_accepts store_def hashable_value_of
        LeftBrace_while_closer)

definition plain_entry :: "string \<Rightarrow> token \<times> token \<Rightarrow> bool" where
  "plain_entry closer kv = (plain_item closer (fst kv) \<and> \<not> overrides_parse (tok (snd kv)))"

lemma LeftBrace_while_plain:
  assumes "token_id s = ''Colon''" "token_id c = ''Comma''" "token_id r = ''RightBrace''"
    and "tail = r # rest \<or> tail = c # r # rest"
  shows "list_all (plain_entry ''RightBrace'') ((k, v) # kvs) \<Longrightarrow>
     LeftBrace_while data k (tl (entries s c ((k, v) # kvs)) @ tail) =
       Inr (PyDict (stored data ((k, v) # kvs)), rest)"
proof (induction kvs arbitrary: k v data)
  case Nil
  then have k: "plain_item ''RightBrace'' k" and v: "\<not> overrides_parse (tok v)"
    by (simp_all add: plain_entry_def)
  from assms(4) show ?case
  proof
    assume "tail = r # rest"
    with LeftBrace_while_last [OF k v assms(1,3)] show ?thesis
      by (simp add: stored_def)
  next
    assume "tail = c # r # rest"
    with LeftBrace_while_step [OF k v assms(1,2)] LeftBrace_while_closer [OF assms(3)] show ?thesis
      by (simp add: stored_def)
  qed
next
  case (Cons kv kvs)
  obtain k' v' where kv: "kv = (k', v')" by (cases kv)
  from Cons.prems have k: "plain_item ''RightBrace'' k" and v: "\<not> overrides_parse (tok v)"
    by (simp_all add: plain_entry_def)
  from Cons.prems have rest: "list_all (plain_entry ''RightBrace'') ((k', v') # kvs)"
    by (simp add: kv)
  show ?case
    unfolding kv entries_tl LeftBrace_while_step [OF k v assms(1,2)]
    using Cons.IH [OF rest, of "setitem (value_of (tok k)) (value_of (tok v)) data"]
    by (simp add: stored_def)
qed


lemma LeftBrace_parse_plain:
  assumes "tok l = LeftBrace" "token_id s = ''Colon''" "token_id c = ''Comma''"
    "token_id r = ''RightBrace''"
    and "kvs \<noteq> []" "list_all (plain_entry ''RightBrace'') kvs"
    and "tail = r # rest \<or> tail = c # r # rest"
  shows "Token_parse l (entries s c kvs @ tail) = Inr (PyDict (stored [] kvs), rest)"
proof -
  from assms(5) obtain k v kvs' where kvs: "kvs = (k, v) # kvs'" by (cases kvs) auto
  have e: "entries s c kvs @ tail = k # (tl (entries s c ((k, v) # kvs')) @ tail)"
    unfolding kvs by (cases kvs') auto
  have "Token_parse l (k # T) = LeftBrace_while [] k T" for T
    using assms(1) by (subst Token_parse.simps) (simp add: advance_accepts)
  then show ?thesis
    unfolding e
    using LeftBrace_while_plain [OF assms(2,3,4,7), of k v kvs' "[]"] assms(6) kvs by simp
qed

text \<open>Inline tuples\<close>

lemma LeftRound_while_closer:
  "token_id r = ''RightRound'' \<Longrightarrow> LeftRound_while data r rest = Inr (PyDict data, rest)"
  by (subst LeftRound_while.simps) simp

lemma LeftRound_while_step:
  assumes "plain_item ''RightRound'' k" "\<not> overrides_parse (tok v)"
    "token_id s = ''EqualSign''" "token_id c = ''Comma''"
  shows "LeftRound_while data k (s # v # c # k' # T) =
     LeftRound_while (setitem (value_of (tok k)) (value_of (tok v)) data) k' T"
  using assms
  by (subst LeftRound_while.simps)
     (simp add: plain_item_def Token_parse_plain advance_accepts store_def hashable_value_of)

lemma LeftRound_while_last:
  assumes "plain_item ''RightRound'' k" "\<not> overrides_parse (tok v)"
    "token_id s = ''EqualSign''" "token_id r = ''RightRound''"
  shows "LeftRound_while data k (s # v # r # rest) =
     Inr (PyDict (setitem (value_of (tok k)) (value_of (tok v)) data), rest)"
  using assms
  by (subst LeftRound_while.simps)
     (simp add: plain_item_def Token_parse_plain advance_accepts store_def hashable_value_of
        LeftRound_while_closer)

lemma LeftRound_while_plain:
  assumes "token_id s = ''EqualSign''" "token_id c = ''Comma''" "token_id r = ''RightRound''"
    and "tail = r # rest \<or> tail = c # r # rest"
  shows "list_all (plain_entry ''RightRound'') ((k, v) # kvs) \<Longrightarrow>
     LeftRound_while data k (tl (entries s c ((k, v) # kvs)) @ tail) =
       Inr (PyDict (stored data ((k, v) # kvs)), rest)"
proof (induction kvs arbitrary: k v data)
  case Nil
  then have k: "plain_item ''RightRound'' k" and v: "\<not> overrides_parse (tok v)"
    by (simp_all add: plain_entry_def)
  from assms(4) show ?case
  proof
    assume "tail = r # rest"
    with LeftRound_while_last [OF k v assms(1,3)] show ?thesis
      by (simp add: stored_def)
  next
    assume "tail = c # r # rest"
    with LeftRound_while_step [OF k v assms(1,2)] LeftRound_while_closer [OF assms(3)] show ?thesis
      by (simp add: stored_def)
  qed
next
  case (Cons kv kvs)
  obtain k' v' where kv: "kv = (k', v')" by (cases kv)
  from Cons.prems have k: "plain_item ''RightRound'' k" and v: "\<not> overrides_parse (tok v)"
    by (simp_all add: plain_entry_def)
  from Cons.prems have rest: "list_all (plain_entry ''RightRound'') ((k', v') # kvs)"
    by (simp add: kv)
  show ?case
    unfolding kv entries_tl LeftRound_while_step [OF k v assms(1,2)]
    using Cons.IH [OF rest, of "setitem (value_of (tok k)) (value_of (tok v)) data"]
    by (simp add: stored_def)
qed


lemma LeftRound_parse_plain:
  assumes "tok l = LeftRound" "token_id s = ''EqualSign''" "token_id c = ''Comma''"
    "token_id r = ''RightRound''"
    and "kvs \<noteq> []" "list_all (plain_entry ''RightRound'') kvs"
    and "tail = r # rest \<or> tail = c # r # rest"
  shows "Token_parse l (entries s c kvs @ tail) = Inr (PyDict (stored [] kvs), rest)"
proof -
  from assms(5) obtain k v kvs' where kvs: "kvs = (k, v) # kvs'" by (cases kvs) auto
  have e: "entries s c kvs @ tail = k # (tl (entries s c ((k, v) # kvs')) @ tail)"
    unfolding kvs by (cases kvs') auto
  have "Token_parse l (k # T) = LeftRound_while [] k T" for T
    using assms(1) by (subst Token_parse.simps) (simp add: advance_accepts)
  then show ?thesis
    unfolding e
    using LeftRound_while_plain [OF assms(2,3,4,7), of k v kvs' "[]"] assms(6) kvs by simp
qed

text \<open>
  C8. An inline sequence decodes to the same Sequence, with its elements in order,
  whether or not a comma stands before the closing bracket, and so do an inline mapping
  and an inline tuple before their closing token. This is shown for every non-empty
  list of items that are tokens without a \<^verbatim>\<open>parse\<close> of their own, whatever follows
  the closing token, and for the two texts of the claim as the value of an entry that
  is followed by a comment line.
\<close>

theorem C8_trailing_comma:
  "token_id c = ''Comma'' \<Longrightarrow>
   (tok l = LeftSquare \<and> token_id r = ''RightSquare'' \<and> items \<noteq> []
      \<and> list_all (plain_item ''RightSquare'') items \<longrightarrow>
    Token_parse l (separated c items @ c # r # rest) = Inr (PyList (item_values items), rest)
    \<and> Token_parse l (separated c items @ r # rest) = Inr (PyList (item_values items), rest))
   \<and> (tok l = LeftBrace \<and> token_id s = ''Colon'' \<and> token_id r = ''RightBrace'' \<and> kvs \<noteq> []
      \<and> list_all (plain_entry ''RightBrace'') kvs \<longrightarrow>
    Token_parse l (entries s c kvs @ c # r # rest) = Inr (PyDict (stored [] kvs), rest)
    \<and> Token_parse l (entries s c kvs @ r # rest) = Inr (PyDict (stored [] kvs), rest))
   \<and> (tok l = LeftRound \<and> token_id s = ''EqualSign'' \<and> token_id r = ''RightRound'' \<and> kvs \<noteq> []
      \<and> list_all (plain_entry ''RightRound'') kvs \<longrightarrow>
    Token_parse l (entries s c kvs @ c # r # rest) = Inr (PyDict (stored [] kvs), rest)
    \<and> Token_parse l (entries s c kvs @ r # rest) = Inr (PyDict (stored [] kvs), rest))
   \<and> parse ''a: [1, 2, 3,]\<newline>#'' = Inr (PyDict [(PyStr ''a'', PyList [PyInt 1, PyInt 2, PyInt 3])])
   \<and> parse ''a: [1, 2, 3]\<newline>#'' = Inr (PyDict [(PyStr ''a'', PyList [PyInt 1, PyInt 2, PyInt 3])])"
proof -
  assume c: "token_id c = ''Comma''"
  have p1: "parse ''a: [1, 2, 3,]\<newline>#'' = Inr (PyDict [(PyStr ''a'', PyList [PyInt 1, PyInt 2, PyInt 3])])"
    by code_simp
  have p2: "parse ''a: [1, 2, 3]\<newline>#'' = Inr (PyDict [(PyStr ''a'', PyList [PyInt 1, PyInt 2, PyInt 3])])"
    by code_simp
  show ?thesis
    using c p1 p2 LeftSquare_parse_plain [of l c r items _ rest]
      LeftBrace_parse_plain [of l s c r kvs _ rest] LeftRound_parse_plain [of l s c r kvs _ rest]
    by simp
qed

theorem C8_trailing_comma_witness:
  "Token_parse \<lparr>tok = LeftSquare, line = None\<rparr>
     [\<lparr>tok = Integer 1, line = None\<rparr>, \<lparr>tok = Comma, line = None\<rparr>,
      \<lparr>tok = Integer 2, line = None\<rparr>, \<lparr>tok = Comma, line = None\<rparr>,
      \<lparr>tok = Integer 3, line = None\<rparr>, \<lparr>tok = Comma, line = None\<rparr>,
      \<lparr>tok = RightSquare, line = None\<rparr>] =
     Inr (PyList [PyInt 1, PyInt 2, PyInt 3], [])
   \<and> Token_parse \<lparr>tok = LeftSquare, line = None\<rparr>
     [\<lparr>tok = Integer 1, line = None\<rparr>, \<lparr>tok = Comma, line = None\<rparr>,
      \<lparr>tok = Integer 2, line = None\<rparr>, \<lparr>tok = Comma, line = None\<rparr>,
      \<lparr>tok = Integer 3, line = None\<rparr>, \<lparr>tok = RightSquare, line = None\<rparr>] =
     Inr (PyList [PyInt 1, PyInt 2, PyInt 3], [])
   \<and> Token_parse \<lparr>tok = LeftBrace, line = None\<rparr>
     [\<lparr>tok = String ''b'', line = None\<rparr>, \<lparr>tok = Colon, line = None\<rparr>,
      \<lparr>tok = Integer 1, line = None\<rparr>, \<lparr>tok = Comma, line = None\<rparr>,
      \<lparr>tok = RightBrace, line = None\<rparr>] =
     Inr (PyDict [(PyStr ''b'', PyInt 1)], [])
   \<and> Token_parse \<lparr>tok = LeftBrace, line = None\<rparr>
     [\<lparr>tok = String ''b'', line = None\<rparr>, \<lparr>tok = Colon, line = None\<rparr>,
      \<lparr>tok = Integer 1, line = None\<rparr>, \<lparr>tok = RightBrace, line = None\<rparr>] =
     Inr (PyDict [(PyStr ''b'', PyInt 1)], [])
   \<and> Token_parse \<lparr>tok = LeftRound, line = None\<rparr>
     [\<lparr>tok = String ''b'', line = None\<rparr>, \<lparr>tok = EqualSign, line = None\<rparr>,
      \<lparr>tok = Integer 1, line = None\<rparr>, \<lparr>tok = Comma, line = None\<rparr>,
      \<lparr>tok = RightRound, line = None\<rparr>] =
     Inr (PyDict [(PyStr ''b'', PyInt 1)], [])
   \<and> Token_parse \<lparr>tok = LeftRound, line = None\<rparr>
     [\<lparr>tok = String ''b'', line = None\<rparr>, \<lparr>tok = EqualSign, line = None\<rparr>,
      \<lparr>tok = Integer 1, line = None\<rparr>, \<lparr>tok = RightRound, line = None\<rparr>] =
     Inr (PyDict [(PyStr ''b'', PyInt 1)], [])"
  using
    C8_trailing_comma [of "\<lparr>tok = Comma, line = None\<rparr>" "\<lparr>tok = LeftSquare, line = None\<rparr>"
      "\<lparr>tok = RightSquare, line = None\<rparr>"
      "[\<lparr>tok = Integer 1, line = None\<rparr>, \<lparr>tok = Integer 2, line = None\<rparr>, \<lparr>tok = Integer 3, line = None\<rparr>]"
      "[]" "\<lparr>tok = Colon, line = None\<rparr>" "[]"]
    C8_trailing_comma [of "\<lparr>tok = Comma, line = None\<rparr>" "\<lparr>tok = LeftBrace, line = None\<rparr>"
      "\<lparr>tok = RightBrace, line = None\<rparr>" "[]" "[]" "\<lparr>tok = Colon, line = None\<rparr>"
      "[(\<lparr>tok = String ''b'', line = None\<rparr>, \<lparr>tok = Integer 1, line = None\<rparr>)]"]
    C8_trailing_comma [of "\<lparr>tok = Comma, line = None\<rparr>" "\<lparr>tok = LeftRound, line = None\<rparr>"
      "\<lparr>tok = RightRound, line = None\<rparr>" "[]" "[]" "\<lparr>tok = EqualSign, line = None\<rparr>"
      "[(\<lparr>tok = String ''b'', line = None\<rparr>, \<lparr>tok = Integer 1, line = None\<rparr>)]"]
  by (simp add: token_id_def plain_item_def plain_entry_def item_values_def stored_def)

end
